theory Spec2Isabelle
  imports Main "HOL-Library.Word"
begin

section \<open>The WiredTiger snapshot manager\<close>

text \<open>
  A shallow embedding of \<^verbatim>\<open>wiredtiger_snapshot_manager.cpp\<close>. Every member function
  that takes the manager's mutex is one atomic function on the manager's state; the
  storage engine is a parameter that answers each call with a return code, and the calls
  made to it are recorded in the order they are made.
\<close>

subsection \<open>Values rendered into configuration strings\<close>

text \<open>
  Modelled from the spec: the classes \<^verbatim>\<open>SnapshotName\<close> and \<^verbatim>\<open>Timestamp\<close> are declared
  outside this source file. The spec gives both as unsigned 64-bit values, totally ordered;
  \<^verbatim>\<open>asU64\<close> and \<^verbatim>\<open>asULL\<close> read the value.
\<close>

type_synonym SnapshotName = "64 word"
type_synonym Timestamp = "64 word"

definition asU64 :: "SnapshotName \<Rightarrow> 64 word" where
  "asU64 name = name"

definition asULL :: "Timestamp \<Rightarrow> 64 word" where
  "asULL ts = ts"

definition digitChar :: "nat \<Rightarrow> char" where
  "digitChar d = ''0123456789abcdef'' ! d"

text \<open>
  The conversion \<^verbatim>\<open>%llx\<close> of \<^verbatim>\<open>snprintf\<close>: lower-case hexadecimal, no padding, no
  prefix, the single digit \<^verbatim>\<open>0\<close> for zero.
\<close>

function llx :: "nat \<Rightarrow> string" where
  "llx n = (if n < 16 then [digitChar n] else llx (n div 16) @ [digitChar (n mod 16)])"
  by pat_completeness auto
termination
  by (relation "measure id") auto

declare llx.simps [simp del]

text \<open>
  The stream insertion \<^verbatim>\<open><<\<close> of an unsigned 64-bit integer into \<^verbatim>\<open>str::stream\<close> or
  \<^verbatim>\<open>StringBuilder\<close>: decimal, no padding.
\<close>

function dec :: "nat \<Rightarrow> string" where
  "dec n = (if n < 10 then [digitChar n] else dec (n div 10) @ [digitChar (n mod 10)])"
  by pat_completeness auto
termination
  by (relation "measure id") auto

declare dec.simps [simp del]

text \<open>
  \<^verbatim>\<open>std::snprintf(buf, n, "<prefix>%llx", v)\<close>: at most \<open>n - 1\<close> characters are stored
  (the last byte is the terminating null), and the length the whole output would have is
  returned.
\<close>

definition snprintf_llx :: "nat \<Rightarrow> string \<Rightarrow> 64 word \<Rightarrow> string \<times> nat" where
  "snprintf_llx n prefix v =
     (let out = prefix @ llx (unat v) in (take (n - 1) out, length out))"

subsection \<open>The engine and the manager's state\<close>

datatype WT_SESSION = WT_SESSION nat
datatype WT_CONNECTION = WT_CONNECTION nat

text \<open>The calls this file makes on the engine, each with its configuration string.\<close>

datatype engine_call =
    conn_set_timestamp WT_CONNECTION string
  | session_snapshot WT_SESSION string
  | session_close WT_SESSION "string option"
  | session_begin_transaction WT_SESSION string

text \<open>
  The engine answers a call with a return code, zero for success; the answer may depend on
  the calls made before.
\<close>

type_synonym engine = "engine_call list \<Rightarrow> engine_call \<Rightarrow> int"

text \<open>
  Modelled from the spec: \<^verbatim>\<open>WiredTigerOplogManager\<close> is declared outside this source file;
  the spec gives \<^verbatim>\<open>getOplogReadTimestamp() -> Timestamp\<close>, an unsigned 64-bit value.
\<close>

record WiredTigerOplogManager =
  oplogReadTimestamp :: "64 word"

definition getOplogReadTimestamp :: "WiredTigerOplogManager \<Rightarrow> 64 word" where
  "getOplogReadTimestamp oplogManager = oplogReadTimestamp oplogManager"

text \<open>
  The members of the class as the member functions use them. A pointer is an option,
  \<open>None\<close> the null pointer. \<open>engineCalls\<close> is the record of the calls made to the engine
  so far, oldest first.
\<close>

record WiredTigerSnapshotManager =
  committedSnapshot :: "SnapshotName option"
  oldestKeptTimestamp :: Timestamp
  session :: "WT_SESSION option"
  conn :: "WT_CONNECTION option"
  engineCalls :: "engine_call list"

datatype ErrorCodes = ReadConcernMajorityNotAvailableYet

text \<open>
  \<^verbatim>\<open>invariant(e)\<close> and \<^verbatim>\<open>invariantWTOK(rc)\<close> abort the process; \<^verbatim>\<open>uassert\<close> throws an
  exception to the caller; a member access through a null pointer has no defined result.
\<close>

datatype error =
    InvariantFailure string
  | InvariantWTOKFailure int
  | UserAssertion ErrorCodes string
  | NullPointer

fun fatal :: "error \<Rightarrow> bool" where
  "fatal (UserAssertion code msg) = False"
| "fatal e = True"

type_synonym 'a result = "(error + 'a) \<times> WiredTigerSnapshotManager"

text \<open>One call on the engine: it is recorded and its return code is read.\<close>

definition wt_call :: "engine \<Rightarrow> engine_call \<Rightarrow> WiredTigerSnapshotManager
    \<Rightarrow> int \<times> WiredTigerSnapshotManager" where
  "wt_call wt c m = (wt (engineCalls m) c, m\<lparr>engineCalls := engineCalls m @ [c]\<rparr>)"

subsection \<open>The member functions\<close>

text \<open>
  Modelled from the spec: \<^verbatim>\<open>Status\<close> and \<^verbatim>\<open>wtRCToStatus\<close> are declared outside this
  source file; the spec has \<^verbatim>\<open>createSnapshot\<close> return the engine's success or failure
  as it is.
\<close>

datatype Status = OK | WiredTigerError int

definition wtRCToStatus :: "int \<Rightarrow> Status" where
  "wtRCToStatus rc = (if rc = 0 then OK else WiredTigerError rc)"

text \<open>
  \<^verbatim>\<open>prepareForCreateSnapshot\<close> works on the recovery unit of the operation context, which
  is outside this file, and reads and writes no member of the manager.
  \<^verbatim>\<open>createSnapshot\<close> makes its call on the session of that recovery unit, here the
  argument \<open>sess\<close>.
\<close>

definition prepareForCreateSnapshot :: "WiredTigerSnapshotManager \<Rightarrow> Status result" where
  "prepareForCreateSnapshot m = (Inr OK, m)"

definition createSnapshot :: "engine \<Rightarrow> WT_SESSION option \<Rightarrow> SnapshotName
    \<Rightarrow> WiredTigerSnapshotManager \<Rightarrow> Status result" where
  "createSnapshot wt sess name m =
     (case sess of
        None \<Rightarrow> (Inl NullPointer, m)
      | Some s \<Rightarrow>
          let config = ''name='' @ dec (unat (asU64 name));
              (rc, m1) = wt_call wt (session_snapshot s config) m
          in (Inr (wtRCToStatus rc), m1))"

text \<open>
  Each function below holds the mutex up to its return and is one step of the model;
  \<^verbatim>\<open>beginTransactionOnOplog\<close> reads the oplog manager before it takes the mutex, and
  the model reads it first. The \<^verbatim>\<open>LOG(2)\<close> line of \<^verbatim>\<open>setCommittedSnapshot\<close>, which
  writes to the log only, is left out.
\<close>

definition setCommittedSnapshot :: "engine \<Rightarrow> SnapshotName \<Rightarrow> Timestamp
    \<Rightarrow> WiredTigerSnapshotManager \<Rightarrow> unit result" where
  "setCommittedSnapshot wt name ts m =
     (if \<not> (case committedSnapshot m of None \<Rightarrow> True | Some cur \<Rightarrow> cur \<le> name)
      then (Inl (InvariantFailure ''!_committedSnapshot || *_committedSnapshot <= name''), m)
      else
        let m1 = m\<lparr>committedSnapshot := Some name\<rparr>;
            bufSize = length ''oldest_timestamp='' + (8 * 2) + 1;
            (oldestTSConfigString, size) =
               snprintf_llx bufSize ''oldest_timestamp='' (asULL ts)
        in if \<not> size < bufSize
           then (Inl (InvariantFailure
                  ''static_cast<std::size_t>(size) < sizeof(oldestTSConfigString)''), m1)
           else
             case conn m1 of
               None \<Rightarrow> (Inl NullPointer, m1)
             | Some c \<Rightarrow>
                 let (rc, m2) = wt_call wt (conn_set_timestamp c oldestTSConfigString) m1
                 in if rc \<noteq> 0 then (Inl (InvariantWTOKFailure rc), m2)
                    else (Inr (), m2\<lparr>oldestKeptTimestamp := ts\<rparr>))"

definition cleanupUnneededSnapshots :: "engine \<Rightarrow> WiredTigerSnapshotManager \<Rightarrow> unit result" where
  "cleanupUnneededSnapshots wt m =
     (case committedSnapshot m of
        None \<Rightarrow> (Inr (), m)
      | Some cur \<Rightarrow>
          let config = ''drop=(before='' @ dec (unat (asU64 cur)) @ '')''
          in (case session m of
                None \<Rightarrow> (Inl NullPointer, m)
              | Some s \<Rightarrow>
                  let (rc, m1) = wt_call wt (session_snapshot s config) m
                  in if rc \<noteq> 0 then (Inl (InvariantWTOKFailure rc), m1) else (Inr (), m1)))"

definition dropAllSnapshots :: "engine \<Rightarrow> WiredTigerSnapshotManager \<Rightarrow> unit result" where
  "dropAllSnapshots wt m =
     (let m1 = m\<lparr>committedSnapshot := None\<rparr>
      in case session m1 of
           None \<Rightarrow> (Inl NullPointer, m1)
         | Some s \<Rightarrow>
             let (rc, m2) = wt_call wt (session_snapshot s ''drop=(all)'') m1
             in if rc \<noteq> 0 then (Inl (InvariantWTOKFailure rc), m2) else (Inr (), m2))"

definition shutdown :: "engine \<Rightarrow> WiredTigerSnapshotManager \<Rightarrow> unit result" where
  "shutdown wt m =
     (case session m of
        None \<Rightarrow> (Inr (), m)
      | Some s \<Rightarrow>
          let (rc, m1) = wt_call wt (session_close s None) m
          in if rc \<noteq> 0 then (Inl (InvariantWTOKFailure rc), m1)
             else (Inr (), m1\<lparr>session := None\<rparr>))"

definition getMinSnapshotForNextCommittedRead :: "WiredTigerSnapshotManager
    \<Rightarrow> SnapshotName option" where
  "getMinSnapshotForNextCommittedRead m = committedSnapshot m"

definition beginTransactionOnCommittedSnapshot :: "engine \<Rightarrow> WT_SESSION option
    \<Rightarrow> WiredTigerSnapshotManager \<Rightarrow> SnapshotName result" where
  "beginTransactionOnCommittedSnapshot wt sess m =
     (case committedSnapshot m of
        None \<Rightarrow>
          (Inl (UserAssertion ReadConcernMajorityNotAvailableYet
                  ''Committed view disappeared while running operation''), m)
      | Some cur \<Rightarrow>
          let config = ''snapshot='' @ dec (unat (asU64 cur))
          in (case sess of
                None \<Rightarrow> (Inl NullPointer, m)
              | Some s \<Rightarrow>
                  let (rc, m1) = wt_call wt (session_begin_transaction s config) m
                  in if rc \<noteq> 0 then (Inl (InvariantWTOKFailure rc), m1) else (Inr cur, m1)))"

definition beginTransactionOnOplog :: "engine \<Rightarrow> WiredTigerOplogManager option
    \<Rightarrow> WT_SESSION option \<Rightarrow> WiredTigerSnapshotManager \<Rightarrow> unit result" where
  "beginTransactionOnOplog wt oplogManager sess m =
     (case oplogManager of
        None \<Rightarrow> (Inl NullPointer, m)
      | Some om \<Rightarrow>
          let allCommittedTimestamp = getOplogReadTimestamp om;
              readTimestamp = max allCommittedTimestamp (asULL (oldestKeptTimestamp m));
              bufSize = 15 + (8 * 2) + 1;
              (readTSConfigString, size) =
                 snprintf_llx bufSize ''read_timestamp='' readTimestamp
          in if \<not> size < bufSize
             then (Inl (InvariantFailure
                    ''static_cast<std::size_t>(size) < sizeof(readTSConfigString)''), m)
             else
               (case sess of
                  None \<Rightarrow> (Inl NullPointer, m)
                | Some s \<Rightarrow>
                    let (rc, m1) = wt_call wt (session_begin_transaction s readTSConfigString) m
                    in if rc \<noteq> 0 then (Inl (InvariantWTOKFailure rc), m1) else (Inr (), m1)))"

subsection \<open>Sequences of calls\<close>

datatype call =
    PrepareForCreateSnapshot
  | CreateSnapshot "WT_SESSION option" SnapshotName
  | SetCommittedSnapshot SnapshotName Timestamp
  | CleanupUnneededSnapshots
  | DropAllSnapshots
  | Shutdown
  | GetMinSnapshotForNextCommittedRead
  | BeginTransactionOnCommittedSnapshot "WT_SESSION option"
  | BeginTransactionOnOplog "WiredTigerOplogManager option" "WT_SESSION option"

datatype retval = Void | Stat Status | Name SnapshotName | OptName "SnapshotName option"

definition returning :: "('a \<Rightarrow> retval) \<Rightarrow> 'a result \<Rightarrow> retval result" where
  "returning f r = (case fst r of Inl e \<Rightarrow> (Inl e, snd r) | Inr v \<Rightarrow> (Inr (f v), snd r))"

fun perform :: "engine \<Rightarrow> call \<Rightarrow> WiredTigerSnapshotManager \<Rightarrow> retval result" where
  "perform wt PrepareForCreateSnapshot m = returning Stat (prepareForCreateSnapshot m)"
| "perform wt (CreateSnapshot sess name) m = returning Stat (createSnapshot wt sess name m)"
| "perform wt (SetCommittedSnapshot name ts) m =
     returning (\<lambda>u. Void) (setCommittedSnapshot wt name ts m)"
| "perform wt CleanupUnneededSnapshots m =
     returning (\<lambda>u. Void) (cleanupUnneededSnapshots wt m)"
| "perform wt DropAllSnapshots m = returning (\<lambda>u. Void) (dropAllSnapshots wt m)"
| "perform wt Shutdown m = returning (\<lambda>u. Void) (shutdown wt m)"
| "perform wt GetMinSnapshotForNextCommittedRead m =
     (Inr (OptName (getMinSnapshotForNextCommittedRead m)), m)"
| "perform wt (BeginTransactionOnCommittedSnapshot sess) m =
     returning Name (beginTransactionOnCommittedSnapshot wt sess m)"
| "perform wt (BeginTransactionOnOplog oplogManager sess) m =
     returning (\<lambda>u. Void) (beginTransactionOnOplog wt oplogManager sess m)"

definition aborts :: "error + 'a \<Rightarrow> bool" where
  "aborts r = (case r of Inl e \<Rightarrow> fatal e | Inr v \<Rightarrow> False)"

text \<open>
  A sequence of calls on one manager, each with its outcome. The sequence ends at the
  first call that aborts the process; an exception thrown by \<^verbatim>\<open>uassert\<close> goes to the
  caller and the next call runs.
\<close>

type_synonym history = "(call \<times> (error + retval)) list"

fun run :: "engine \<Rightarrow> call list \<Rightarrow> WiredTigerSnapshotManager
    \<Rightarrow> history \<times> WiredTigerSnapshotManager" where
  "run wt [] m = ([], m)"
| "run wt (c # cs) m =
     (let (r, m1) = perform wt c m
      in if aborts r then ([(c, r)], m1)
         else let (h, m2) = run wt cs m1 in ((c, r) # h, m2))"

text \<open>The calls of \<^verbatim>\<open>setCommittedSnapshot\<close> that returned, with their arguments.\<close>

fun accepted :: "history \<Rightarrow> (SnapshotName \<times> Timestamp) list" where
  "accepted [] = []"
| "accepted ((SetCommittedSnapshot name ts, Inr v) # h) = (name, ts) # accepted h"
| "accepted (x # h) = accepted h"

subsection \<open>Reading a rendered number back\<close>

text \<open>
  The position of a digit in \<^verbatim>\<open>0123456789abcdef\<close>, and the number a string of digits
  denotes in a base: what the engine's parser computes from a configuration value.
\<close>

definition digitVal :: "char \<Rightarrow> nat" where
  "digitVal c = length (takeWhile (\<lambda>d. d \<noteq> c) ''0123456789abcdef'')"

definition denotes :: "nat \<Rightarrow> string \<Rightarrow> nat" where
  "denotes base s = foldl (\<lambda>acc c. acc * base + digitVal c) 0 s"

text \<open>Whether a committed snapshot, if there is one, is at most the given name.\<close>

definition admits :: "SnapshotName option \<Rightarrow> SnapshotName \<Rightarrow> bool" where
  "admits committed name = (case committed of None \<Rightarrow> True | Some cur \<Rightarrow> cur \<le> name)"

subsection \<open>The rendering the specification describes\<close>

text \<open>
  The specification's words for a timestamp in a configuration string are "fixed-width
  hexadecimal": every one of the sixteen hexadecimal digits of the 64-bit value, leading
  zeros included. This definition follows those words, not the source.
\<close>

definition spec_fixedWidthHex :: "64 word \<Rightarrow> string" where
  "spec_fixedWidthHex v = map (\<lambda>i. digitChar (unat v div 16 ^ i mod 16)) (rev [0..<16])"

subsection \<open>A manager and an engine to run examples on\<close>

text \<open>
  Modelled from the spec: the constructor is declared outside this source file. The spec
  gives the state at construction: no committed snapshot, the oldest kept timestamp zero,
  a session opened on the connection.
\<close>

definition constructed :: "WT_CONNECTION \<Rightarrow> WT_SESSION \<Rightarrow> WiredTigerSnapshotManager" where
  "constructed c s =
     \<lparr>committedSnapshot = None, oldestKeptTimestamp = 0, session = Some s, conn = Some c,
      engineCalls = []\<rparr>"

text \<open>An engine on which every call succeeds.\<close>

definition engine_ok :: engine where
  "engine_ok h c = 0"

section \<open>Properties\<close>

subsection \<open>The rendering of numbers\<close>

lemma digitVal_digitChar: "d < 16 \<Longrightarrow> digitVal (digitChar d) = d"
proof -
  have "\<forall>d \<in> set [0..<16]. digitVal (digitChar d) = d"
    by (simp add: digitVal_def digitChar_def upt_conv_Cons)
  moreover assume "d < 16"
  ultimately show ?thesis by simp
qed

lemma digitChar_hex: "d < 16 \<Longrightarrow> digitChar d \<in> set ''0123456789abcdef''"
  unfolding digitChar_def by (rule nth_mem) simp

lemma digitChar_dec: "d < 10 \<Longrightarrow> digitChar d \<in> set ''0123456789''"
proof -
  have "\<forall>d \<in> set [0..<10]. digitChar d \<in> set ''0123456789''"
    by (simp add: digitChar_def upt_conv_Cons)
  moreover assume "d < 10"
  ultimately show ?thesis by simp
qed

lemma digitChar_zero: "d < 16 \<Longrightarrow> digitChar d = CHR ''0'' \<Longrightarrow> d = 0"
proof -
  assume d: "d < 16" and z: "digitChar d = CHR ''0''"
  from d have "digitVal (digitChar d) = d" by (rule digitVal_digitChar)
  moreover have "digitVal CHR ''0'' = 0" by (simp add: digitVal_def)
  ultimately show ?thesis using z by simp
qed

lemma llx_length: "n < 16 ^ k \<Longrightarrow> 0 < k \<Longrightarrow> length (llx n) \<le> k"
proof (induction n arbitrary: k rule: llx.induct)
  case (1 n)
  show ?case
  proof (cases "n < 16")
    case True
    then show ?thesis using 1(3) by (simp add: llx.simps)
  next
    case False
    then obtain j where k: "k = Suc j" using 1(3) by (cases k) auto
    have "j \<noteq> 0" using False 1(2) k by (cases j) auto
    moreover have "n div 16 < 16 ^ j" using 1(2) k by (simp add: less_mult_imp_div_less)
    ultimately have "length (llx (n div 16)) \<le> j" using 1(1)[OF False, of j] by simp
    then show ?thesis using False k by (subst llx.simps) simp
  qed
qed

lemma llx_length_word: "length (llx (unat (v :: 64 word))) \<le> 16"
proof -
  have "unat v < 2 ^ LENGTH(64)" by (rule unsigned_less)
  then have "unat v < 2 ^ 64" by simp
  also have "(2::nat) ^ 64 = 16 ^ 16" by simp
  finally show ?thesis by (rule llx_length) simp
qed

lemma llx_nonempty: "llx n \<noteq> []"
  by (subst llx.simps) simp

lemma llx_digits: "set (llx n) \<subseteq> set ''0123456789abcdef''"
proof (induction n rule: llx.induct)
  case (1 n)
  show ?case
  proof (cases "n < 16")
    case True
    then show ?thesis using digitChar_hex [of n] by (subst llx.simps) simp
  next
    case False
    have "n mod 16 < 16" by simp
    then have "digitChar (n mod 16) \<in> set ''0123456789abcdef''" by (rule digitChar_hex)
    then show ?thesis using False 1 by (subst llx.simps) simp
  qed
qed

lemma llx_no_leading_zero: "0 < n \<Longrightarrow> hd (llx n) \<noteq> CHR ''0''"
proof (induction n rule: llx.induct)
  case (1 n)
  show ?case
  proof (cases "n < 16")
    case True
    then show ?thesis using 1(2) digitChar_zero [of n] by (subst llx.simps) auto
  next
    case False
    then have "0 < n div 16" by (simp add: div_greater_zero_iff)
    then have "hd (llx (n div 16)) \<noteq> CHR ''0''" using 1(1) False by simp
    then show ?thesis using False llx_nonempty [of "n div 16"] by (subst llx.simps) simp
  qed
qed

lemma denotes_snoc: "denotes b (s @ [c]) = denotes b s * b + digitVal c"
  by (simp add: denotes_def)

lemma denotes_llx: "denotes 16 (llx n) = n"
proof (induction n rule: llx.induct)
  case (1 n)
  show ?case
  proof (cases "n < 16")
    case True
    then show ?thesis by (subst llx.simps) (simp add: denotes_def digitVal_digitChar)
  next
    case False
    then show ?thesis using 1
      by (subst llx.simps) (simp add: denotes_snoc digitVal_digitChar)
  qed
qed

lemma dec_length: "n < 10 ^ k \<Longrightarrow> 0 < k \<Longrightarrow> length (dec n) \<le> k"
proof (induction n arbitrary: k rule: dec.induct)
  case (1 n)
  show ?case
  proof (cases "n < 10")
    case True
    then show ?thesis using 1(3) by (simp add: dec.simps)
  next
    case False
    then obtain j where k: "k = Suc j" using 1(3) by (cases k) auto
    have "j \<noteq> 0" using False 1(2) k by (cases j) auto
    moreover have "n div 10 < 10 ^ j" using 1(2) k by (simp add: less_mult_imp_div_less)
    ultimately have "length (dec (n div 10)) \<le> j" using 1(1)[OF False, of j] by simp
    then show ?thesis using False k by (subst dec.simps) simp
  qed
qed

lemma dec_nonempty: "dec n \<noteq> []"
  by (subst dec.simps) simp

lemma dec_digits: "set (dec n) \<subseteq> set ''0123456789''"
proof (induction n rule: dec.induct)
  case (1 n)
  show ?case
  proof (cases "n < 10")
    case True
    then show ?thesis using digitChar_dec [of n] by (subst dec.simps) simp
  next
    case False
    have "n mod 10 < 10" by simp
    then have "digitChar (n mod 10) \<in> set ''0123456789''" by (rule digitChar_dec)
    then show ?thesis using False 1 by (subst dec.simps) simp
  qed
qed

lemma denotes_dec: "denotes 10 (dec n) = n"
proof (induction n rule: dec.induct)
  case (1 n)
  show ?case
  proof (cases "n < 10")
    case True
    then show ?thesis by (subst dec.simps) (simp add: denotes_def digitVal_digitChar)
  next
    case False
    have "n mod 10 < 16" by (rule less_trans [of _ 10]) simp_all
    then show ?thesis using False 1
      by (subst dec.simps) (simp add: denotes_snoc digitVal_digitChar)
  qed
qed

lemma snprintf_oldest:
  "snprintf_llx 34 ''oldest_timestamp='' v =
     (''oldest_timestamp='' @ llx (unat v), 17 + length (llx (unat v)))"
  using llx_length_word [of v] by (simp add: snprintf_llx_def Let_def)

lemma snprintf_read:
  "snprintf_llx 32 ''read_timestamp='' v =
     (''read_timestamp='' @ llx (unat v), 15 + length (llx (unat v)))"
  using llx_length_word [of v] by (simp add: snprintf_llx_def Let_def)

subsection \<open>What each member function does\<close>

lemma llx_word_fits: "length (llx (unat (v :: 64 word))) < 17"
  using llx_length_word [of v] by simp

lemma setCommittedSnapshot_refused:
  "\<not> (case committedSnapshot m of None \<Rightarrow> True | Some cur \<Rightarrow> cur \<le> name) \<Longrightarrow>
   setCommittedSnapshot wt name ts m =
     (Inl (InvariantFailure ''!_committedSnapshot || *_committedSnapshot <= name''), m)"
  by (simp add: setCommittedSnapshot_def)

lemma setCommittedSnapshot_regress:
  "committedSnapshot m = Some cur \<Longrightarrow> name < cur \<Longrightarrow>
   setCommittedSnapshot wt name ts m =
     (Inl (InvariantFailure ''!_committedSnapshot || *_committedSnapshot <= name''), m)"
  by (simp add: setCommittedSnapshot_def not_le)

lemma setCommittedSnapshot_null_conn:
  "(case committedSnapshot m of None \<Rightarrow> True | Some cur \<Rightarrow> cur \<le> name) \<Longrightarrow>
   conn m = None \<Longrightarrow>
   setCommittedSnapshot wt name ts m = (Inl NullPointer, m\<lparr>committedSnapshot := Some name\<rparr>)"
  by (simp add: setCommittedSnapshot_def snprintf_oldest asULL_def llx_word_fits)

lemma setCommittedSnapshot_call:
  "(case committedSnapshot m of None \<Rightarrow> True | Some cur \<Rightarrow> cur \<le> name) \<Longrightarrow>
   conn m = Some c \<Longrightarrow>
   setCommittedSnapshot wt name ts m =
     (let k = conn_set_timestamp c (''oldest_timestamp='' @ llx (unat ts));
          rc = wt (engineCalls m) k;
          m2 = m\<lparr>committedSnapshot := Some name, engineCalls := engineCalls m @ [k]\<rparr>
      in if rc \<noteq> 0 then (Inl (InvariantWTOKFailure rc), m2)
         else (Inr (), m2\<lparr>oldestKeptTimestamp := ts\<rparr>))"
  by (simp add: setCommittedSnapshot_def snprintf_oldest asULL_def wt_call_def Let_def
        llx_word_fits)

lemma setCommittedSnapshot_returns:
  assumes "fst (setCommittedSnapshot wt name ts m) = Inr u"
  shows "(case committedSnapshot m of None \<Rightarrow> True | Some cur \<Rightarrow> cur \<le> name)"
    and "\<exists>c. conn m = Some c \<and>
           wt (engineCalls m) (conn_set_timestamp c (''oldest_timestamp='' @ llx (unat ts))) = 0 \<and>
           snd (setCommittedSnapshot wt name ts m) =
             m\<lparr>committedSnapshot := Some name,
               engineCalls := engineCalls m @
                 [conn_set_timestamp c (''oldest_timestamp='' @ llx (unat ts))],
               oldestKeptTimestamp := ts\<rparr>"
proof -
  show ok: "(case committedSnapshot m of None \<Rightarrow> True | Some cur \<Rightarrow> cur \<le> name)"
    using assms by (auto simp: setCommittedSnapshot_def split: if_splits)
  show "\<exists>c. conn m = Some c \<and>
           wt (engineCalls m) (conn_set_timestamp c (''oldest_timestamp='' @ llx (unat ts))) = 0 \<and>
           snd (setCommittedSnapshot wt name ts m) =
             m\<lparr>committedSnapshot := Some name,
               engineCalls := engineCalls m @
                 [conn_set_timestamp c (''oldest_timestamp='' @ llx (unat ts))],
               oldestKeptTimestamp := ts\<rparr>"
  proof (cases "conn m")
    case None
    then show ?thesis using assms setCommittedSnapshot_null_conn [OF ok None] by simp
  next
    case (Some c)
    then show ?thesis using assms setCommittedSnapshot_call [OF ok Some, of wt ts]
      by (simp add: Let_def split: if_splits)
  qed
qed

lemma setCommittedSnapshot_oldest_unless_returns:
  "fst (setCommittedSnapshot wt name ts m) = Inl e \<Longrightarrow>
   oldestKeptTimestamp (snd (setCommittedSnapshot wt name ts m)) = oldestKeptTimestamp m"
proof (cases "case committedSnapshot m of None \<Rightarrow> True | Some cur \<Rightarrow> cur \<le> name")
  case False
  then show ?thesis by (simp add: setCommittedSnapshot_refused)
next
  case ok: True
  assume e: "fst (setCommittedSnapshot wt name ts m) = Inl e"
  show ?thesis
  proof (cases "conn m")
    case None
    then show ?thesis by (simp add: setCommittedSnapshot_null_conn [OF ok])
  next
    case (Some c)
    then show ?thesis using e
      by (simp add: setCommittedSnapshot_call [OF ok Some] Let_def split: if_splits)
  qed
qed

lemma cleanupUnneededSnapshots_none:
  "committedSnapshot m = None \<Longrightarrow> cleanupUnneededSnapshots wt m = (Inr (), m)"
  by (simp add: cleanupUnneededSnapshots_def)

lemma cleanupUnneededSnapshots_null_session:
  "committedSnapshot m = Some cur \<Longrightarrow> session m = None \<Longrightarrow>
   cleanupUnneededSnapshots wt m = (Inl NullPointer, m)"
  by (simp add: cleanupUnneededSnapshots_def)

lemma cleanupUnneededSnapshots_call:
  "committedSnapshot m = Some cur \<Longrightarrow> session m = Some s \<Longrightarrow>
   cleanupUnneededSnapshots wt m =
     (let k = session_snapshot s (''drop=(before='' @ dec (unat cur) @ '')'');
          rc = wt (engineCalls m) k
      in (if rc \<noteq> 0 then Inl (InvariantWTOKFailure rc) else Inr (),
          m\<lparr>engineCalls := engineCalls m @ [k]\<rparr>))"
  by (simp add: cleanupUnneededSnapshots_def wt_call_def asU64_def Let_def)

lemma dropAllSnapshots_null_session:
  "session m = None \<Longrightarrow>
   dropAllSnapshots wt m = (Inl NullPointer, m\<lparr>committedSnapshot := None\<rparr>)"
  by (simp add: dropAllSnapshots_def)

lemma dropAllSnapshots_call:
  "session m = Some s \<Longrightarrow>
   dropAllSnapshots wt m =
     (let k = session_snapshot s ''drop=(all)'';
          rc = wt (engineCalls m) k
      in (if rc \<noteq> 0 then Inl (InvariantWTOKFailure rc) else Inr (),
          m\<lparr>committedSnapshot := None, engineCalls := engineCalls m @ [k]\<rparr>))"
  by (simp add: dropAllSnapshots_def wt_call_def Let_def)

lemma dropAllSnapshots_frame:
  "committedSnapshot (snd (dropAllSnapshots wt m)) = None"
  "oldestKeptTimestamp (snd (dropAllSnapshots wt m)) = oldestKeptTimestamp m"
  "session (snd (dropAllSnapshots wt m)) = session m"
  "conn (snd (dropAllSnapshots wt m)) = conn m"
  by (cases "session m"; simp add: dropAllSnapshots_null_session dropAllSnapshots_call Let_def)+

lemma shutdown_null_session: "session m = None \<Longrightarrow> shutdown wt m = (Inr (), m)"
  by (simp add: shutdown_def)

lemma shutdown_call:
  "session m = Some s \<Longrightarrow>
   shutdown wt m =
     (let k = session_close s None;
          rc = wt (engineCalls m) k;
          m1 = m\<lparr>engineCalls := engineCalls m @ [k]\<rparr>
      in if rc \<noteq> 0 then (Inl (InvariantWTOKFailure rc), m1)
         else (Inr (), m1\<lparr>session := None\<rparr>))"
  by (simp add: shutdown_def wt_call_def Let_def)

lemma shutdown_returns:
  "fst (shutdown wt m) = Inr u \<Longrightarrow> session (snd (shutdown wt m)) = None"
  by (cases "session m") (auto simp: shutdown_null_session shutdown_call Let_def split: if_splits)

lemma beginTransactionOnCommittedSnapshot_none:
  "committedSnapshot m = None \<Longrightarrow>
   beginTransactionOnCommittedSnapshot wt sess m =
     (Inl (UserAssertion ReadConcernMajorityNotAvailableYet
             ''Committed view disappeared while running operation''), m)"
  by (simp add: beginTransactionOnCommittedSnapshot_def)

lemma beginTransactionOnCommittedSnapshot_null_session:
  "committedSnapshot m = Some cur \<Longrightarrow>
   beginTransactionOnCommittedSnapshot wt None m = (Inl NullPointer, m)"
  by (simp add: beginTransactionOnCommittedSnapshot_def)

lemma beginTransactionOnCommittedSnapshot_call:
  "committedSnapshot m = Some cur \<Longrightarrow>
   beginTransactionOnCommittedSnapshot wt (Some s) m =
     (let k = session_begin_transaction s (''snapshot='' @ dec (unat cur));
          rc = wt (engineCalls m) k
      in (if rc \<noteq> 0 then Inl (InvariantWTOKFailure rc) else Inr cur,
          m\<lparr>engineCalls := engineCalls m @ [k]\<rparr>))"
  by (simp add: beginTransactionOnCommittedSnapshot_def wt_call_def asU64_def Let_def)

lemma beginTransactionOnOplog_null:
  "beginTransactionOnOplog wt None sess m = (Inl NullPointer, m)"
  "beginTransactionOnOplog wt (Some om) None m = (Inl NullPointer, m)"
  by (simp_all add: beginTransactionOnOplog_def snprintf_read Let_def llx_word_fits)

lemma beginTransactionOnOplog_call:
  "beginTransactionOnOplog wt (Some om) (Some s) m =
     (let k = session_begin_transaction s (''read_timestamp='' @
                llx (unat (max (getOplogReadTimestamp om) (oldestKeptTimestamp m))));
          rc = wt (engineCalls m) k
      in (if rc \<noteq> 0 then Inl (InvariantWTOKFailure rc) else Inr (),
          m\<lparr>engineCalls := engineCalls m @ [k]\<rparr>))"
  by (simp add: beginTransactionOnOplog_def snprintf_read asULL_def wt_call_def Let_def
        llx_word_fits)

subsection \<open>What a sequence of calls does\<close>

lemma returning_simps:
  "fst (returning f r) = (case fst r of Inl e \<Rightarrow> Inl e | Inr v \<Rightarrow> Inr (f v))"
  "snd (returning f r) = snd r"
  by (simp_all add: returning_def split: sum.splits)

lemma returning_Inr: "fst (returning f r) = Inr v \<Longrightarrow> \<exists>u. fst r = Inr u"
  by (simp add: returning_def split: sum.splits)

lemma returning_Inl: "fst (returning f r) = Inl e \<Longrightarrow> fst r = Inl e"
  by (simp add: returning_def split: sum.splits)

lemma setCommittedSnapshot_fatal:
  "fst (setCommittedSnapshot wt name ts m) = Inl e \<Longrightarrow> fatal e"
proof (cases "case committedSnapshot m of None \<Rightarrow> True | Some cur \<Rightarrow> cur \<le> name")
  case False
  assume "fst (setCommittedSnapshot wt name ts m) = Inl e"
  with False show ?thesis by (auto simp: setCommittedSnapshot_refused)
next
  case ok: True
  assume e: "fst (setCommittedSnapshot wt name ts m) = Inl e"
  show ?thesis
  proof (cases "conn m")
    case None
    then show ?thesis using e by (auto simp: setCommittedSnapshot_null_conn [OF ok])
  next
    case (Some c)
    then show ?thesis using e
      by (auto simp: setCommittedSnapshot_call [OF ok Some] Let_def split: if_splits)
  qed
qed

lemma createSnapshot_frame:
  "committedSnapshot (snd (createSnapshot wt sess name m)) = committedSnapshot m"
  "oldestKeptTimestamp (snd (createSnapshot wt sess name m)) = oldestKeptTimestamp m"
  "session (snd (createSnapshot wt sess name m)) = session m"
  "conn (snd (createSnapshot wt sess name m)) = conn m"
  by (cases sess; simp add: createSnapshot_def wt_call_def Let_def)+

lemma cleanupUnneededSnapshots_frame:
  "committedSnapshot (snd (cleanupUnneededSnapshots wt m)) = committedSnapshot m"
  "oldestKeptTimestamp (snd (cleanupUnneededSnapshots wt m)) = oldestKeptTimestamp m"
  "session (snd (cleanupUnneededSnapshots wt m)) = session m"
  "conn (snd (cleanupUnneededSnapshots wt m)) = conn m"
  by (cases "committedSnapshot m"; cases "session m";
      simp add: cleanupUnneededSnapshots_none cleanupUnneededSnapshots_null_session
        cleanupUnneededSnapshots_call Let_def)+

lemma shutdown_frame:
  "committedSnapshot (snd (shutdown wt m)) = committedSnapshot m"
  "oldestKeptTimestamp (snd (shutdown wt m)) = oldestKeptTimestamp m"
  "conn (snd (shutdown wt m)) = conn m"
  by (cases "session m"; simp add: shutdown_null_session shutdown_call Let_def)+

lemma beginTransactionOnCommittedSnapshot_frame:
  "committedSnapshot (snd (beginTransactionOnCommittedSnapshot wt sess m)) = committedSnapshot m"
  "oldestKeptTimestamp (snd (beginTransactionOnCommittedSnapshot wt sess m)) =
     oldestKeptTimestamp m"
  "session (snd (beginTransactionOnCommittedSnapshot wt sess m)) = session m"
  "conn (snd (beginTransactionOnCommittedSnapshot wt sess m)) = conn m"
  by (cases "committedSnapshot m"; cases sess;
      simp add: beginTransactionOnCommittedSnapshot_none
        beginTransactionOnCommittedSnapshot_null_session
        beginTransactionOnCommittedSnapshot_call Let_def)+

lemma beginTransactionOnOplog_frame:
  "committedSnapshot (snd (beginTransactionOnOplog wt oplogManager sess m)) = committedSnapshot m"
  "oldestKeptTimestamp (snd (beginTransactionOnOplog wt oplogManager sess m)) =
     oldestKeptTimestamp m"
  "session (snd (beginTransactionOnOplog wt oplogManager sess m)) = session m"
  "conn (snd (beginTransactionOnOplog wt oplogManager sess m)) = conn m"
  by (cases oplogManager; cases sess;
      simp add: beginTransactionOnOplog_null beginTransactionOnOplog_call Let_def)+

text \<open>Only \<^verbatim>\<open>setCommittedSnapshot\<close> writes the oldest kept timestamp, and only when it returns.\<close>

lemma perform_oldestKeptTimestamp:
  "oldestKeptTimestamp (snd (perform wt c m)) =
     (case c of
        SetCommittedSnapshot name ts \<Rightarrow>
          (case fst (perform wt c m) of Inl e \<Rightarrow> oldestKeptTimestamp m | Inr v \<Rightarrow> ts)
      | _ \<Rightarrow> oldestKeptTimestamp m)"
proof (cases c)
  case (SetCommittedSnapshot name ts)
  show ?thesis
  proof (cases "fst (setCommittedSnapshot wt name ts m)")
    case (Inl e)
    then show ?thesis using SetCommittedSnapshot setCommittedSnapshot_oldest_unless_returns [OF Inl]
      by (simp add: returning_simps)
  next
    case (Inr u)
    then show ?thesis using SetCommittedSnapshot setCommittedSnapshot_returns(2) [OF Inr]
      by (auto simp: returning_simps)
  qed
qed (simp_all add: returning_simps prepareForCreateSnapshot_def createSnapshot_frame
       cleanupUnneededSnapshots_frame dropAllSnapshots_frame shutdown_frame
       beginTransactionOnCommittedSnapshot_frame beginTransactionOnOplog_frame)

lemma perform_committedSnapshot:
  "committedSnapshot (snd (perform wt c m)) =
     (case c of
        SetCommittedSnapshot name ts \<Rightarrow>
          (if (case committedSnapshot m of None \<Rightarrow> True | Some cur \<Rightarrow> cur \<le> name)
           then Some name else committedSnapshot m)
      | DropAllSnapshots \<Rightarrow> None
      | _ \<Rightarrow> committedSnapshot m)"
proof (cases c)
  case (SetCommittedSnapshot name ts)
  show ?thesis
  proof (cases "case committedSnapshot m of None \<Rightarrow> True | Some cur \<Rightarrow> cur \<le> name")
    case False
    then show ?thesis using SetCommittedSnapshot
      by (simp add: returning_simps setCommittedSnapshot_refused)
  next
    case ok: True
    show ?thesis
    proof (cases "conn m")
      case None
      then show ?thesis using SetCommittedSnapshot ok
        by (simp add: returning_simps setCommittedSnapshot_null_conn [OF ok])
    next
      case (Some k)
      then show ?thesis using SetCommittedSnapshot ok
        by (simp add: returning_simps setCommittedSnapshot_call [OF ok Some] Let_def)
    qed
  qed
qed (simp_all add: returning_simps prepareForCreateSnapshot_def createSnapshot_frame
       cleanupUnneededSnapshots_frame dropAllSnapshots_frame shutdown_frame
       beginTransactionOnCommittedSnapshot_frame beginTransactionOnOplog_frame)

lemma perform_set_continues:
  "\<not> aborts (fst (perform wt (SetCommittedSnapshot name ts) m)) \<Longrightarrow>
   \<exists>v. fst (perform wt (SetCommittedSnapshot name ts) m) = Inr v"
proof (cases "fst (setCommittedSnapshot wt name ts m)")
  case (Inl e)
  assume "\<not> aborts (fst (perform wt (SetCommittedSnapshot name ts) m))"
  then show ?thesis using Inl setCommittedSnapshot_fatal [OF Inl]
    by (simp add: returning_simps aborts_def)
next
  case (Inr u)
  then show ?thesis by (simp add: returning_simps)
qed

lemma accepted_Inl: "accepted ((c, Inl e) # h) = accepted h"
  by (cases c) simp_all

lemma accepted_aborts: "aborts r \<Longrightarrow> accepted [(c, r)] = []"
  by (cases r) (simp_all add: aborts_def accepted_Inl)

lemma run_Cons:
  "run wt (c # cs) m =
     (if aborts (fst (perform wt c m)) then ([(c, fst (perform wt c m))], snd (perform wt c m))
      else ((c, fst (perform wt c m)) # fst (run wt cs (snd (perform wt c m))),
            snd (run wt cs (snd (perform wt c m)))))"
  by (simp add: Let_def split: prod.splits)


declare run.simps(2) [simp del]

lemma run_oldestKeptTimestamp:
  "oldestKeptTimestamp (snd (run wt cs m)) =
     last (oldestKeptTimestamp m # map snd (accepted (fst (run wt cs m))))"
proof (induction cs arbitrary: m)
  case Nil
  show ?case by simp
next
  case (Cons c cs)
  obtain r m1 where p: "perform wt c m = (r, m1)" by (cases "perform wt c m")
  have old: "oldestKeptTimestamp m1 =
     (case c of
        SetCommittedSnapshot name ts \<Rightarrow>
          (case r of Inl e \<Rightarrow> oldestKeptTimestamp m | Inr v \<Rightarrow> ts)
      | _ \<Rightarrow> oldestKeptTimestamp m)"
    using perform_oldestKeptTimestamp [of wt c m] unfolding p by (simp cong: call.case_cong)
  show ?case
  proof (cases "aborts r")
    case True
    then obtain e where "r = Inl e" by (cases r) (simp_all add: aborts_def)
    then show ?thesis using True p old
      by (simp add: run_Cons accepted_Inl split: call.splits)
  next
    case False
    have ih: "oldestKeptTimestamp (snd (run wt cs m1)) =
        last (oldestKeptTimestamp m1 # map snd (accepted (fst (run wt cs m1))))"
      by (rule Cons.IH)
    show ?thesis
    proof (cases r)
      case (Inl e)
      then show ?thesis using False p old ih
        by (simp add: run_Cons accepted_Inl split: call.splits)
    next
      case (Inr v)
      then show ?thesis using False p old ih
        by (cases c) (simp_all add: run_Cons)
    qed
  qed
qed

lemma admits_trans: "admits c a \<Longrightarrow> a \<le> b \<Longrightarrow> admits c b"
  by (cases c) (auto simp: admits_def)

lemma run_accepted_sorted:
  "DropAllSnapshots \<notin> set cs \<Longrightarrow>
   sorted (map fst (accepted (fst (run wt cs m)))) \<and>
   (\<forall>name \<in> set (map fst (accepted (fst (run wt cs m)))). admits (committedSnapshot m) name)"
proof (induction cs arbitrary: m)
  case Nil
  show ?case by simp
next
  case (Cons c cs)
  obtain r m1 where p: "perform wt c m = (r, m1)" by (cases "perform wt c m")
  have nodrop: "c \<noteq> DropAllSnapshots" "DropAllSnapshots \<notin> set cs" using Cons.prems by auto
  show ?case
  proof (cases "aborts r")
    case True
    then show ?thesis using p by (simp add: run_Cons accepted_aborts)
  next
    case False
    have ih: "sorted (map fst (accepted (fst (run wt cs m1))))"
      "\<forall>name \<in> set (map fst (accepted (fst (run wt cs m1)))). admits (committedSnapshot m1) name"
      using Cons.IH [OF nodrop(2), of m1] by simp_all
    have com: "committedSnapshot m1 =
       (case c of
          SetCommittedSnapshot name ts \<Rightarrow>
            (if (case committedSnapshot m of None \<Rightarrow> True | Some cur \<Rightarrow> cur \<le> name)
             then Some name else committedSnapshot m)
        | DropAllSnapshots \<Rightarrow> None
        | _ \<Rightarrow> committedSnapshot m)"
      using perform_committedSnapshot [of wt c m] p by simp
    show ?thesis
    proof (cases "\<exists>name ts. c = SetCommittedSnapshot name ts")
      case True
      then obtain name ts where c: "c = SetCommittedSnapshot name ts" by blast
      obtain v where r: "r = Inr v"
        using perform_set_continues [of wt name ts m] False p c by auto
      have "\<exists>u. fst (setCommittedSnapshot wt name ts m) = Inr u"
        using p c r returning_Inr [of "\<lambda>u. Void" "setCommittedSnapshot wt name ts m" v] by simp
      then obtain u where "fst (setCommittedSnapshot wt name ts m) = Inr u" by blast
      then have ok: "admits (committedSnapshot m) name"
        using setCommittedSnapshot_returns(1) by (simp add: admits_def)
      then have m1: "committedSnapshot m1 = Some name" using com c by (simp add: admits_def)
      have above: "\<forall>x \<in> set (map fst (accepted (fst (run wt cs m1)))). name \<le> x"
        using ih(2) m1 by (simp add: admits_def)
      have acc: "accepted (fst (run wt (c # cs) m)) = (name, ts) # accepted (fst (run wt cs m1))"
        using False p c r by (simp add: run_Cons)
      show ?thesis unfolding acc using ih(1) above ok admits_trans [OF ok] by auto
    next
      case other: False
      then have acc: "accepted (fst (run wt (c # cs) m)) = accepted (fst (run wt cs m1))"
        using False p by (cases c; cases r) (simp_all add: run_Cons accepted_Inl)
      have "committedSnapshot m1 = committedSnapshot m"
        using com other nodrop(1) by (cases c) simp_all
      then show ?thesis unfolding acc using ih by simp
    qed
  qed
qed

lemma run_shutdown_closed:
  "session m = None \<Longrightarrow>
   run wt (replicate n Shutdown) m = (replicate n (Shutdown, Inr Void), m)"
  by (induction n) (simp_all add: run_Cons returning_def shutdown_null_session aborts_def)

section \<open>The claims\<close>

lemmas eval_simps =
  prepareForCreateSnapshot_def createSnapshot_def wtRCToStatus_def setCommittedSnapshot_def cleanupUnneededSnapshots_def dropAllSnapshots_def shutdown_def
  getMinSnapshotForNextCommittedRead_def beginTransactionOnCommittedSnapshot_def
  beginTransactionOnOplog_def getOplogReadTimestamp_def
  snprintf_llx_def llx.simps dec.simps digitChar_def wt_call_def asULL_def asU64_def
  constructed_def engine_ok_def returning_def aborts_def run_Cons Let_def

text \<open>
  C1: over any sequence of calls without \<^verbatim>\<open>dropAllSnapshots\<close>, the names of the accepted
  \<^verbatim>\<open>setCommittedSnapshot\<close> calls are non-decreasing; a call returns only if there is no
  committed snapshot or the committed snapshot is at most the new name; a call with a name
  strictly below the committed snapshot fails the invariant and leaves the manager as it was.
\<close>

theorem C1_committed_snapshot_monotone:
  "(DropAllSnapshots \<notin> set cs \<longrightarrow> sorted (map fst (accepted (fst (run wt cs m))))) \<and>
   (fst (setCommittedSnapshot wt name ts m) = Inr () \<longrightarrow>
      committedSnapshot m = None \<or> (\<exists>cur. committedSnapshot m = Some cur \<and> cur \<le> name)) \<and>
   (committedSnapshot m = Some cur \<and> name < cur \<longrightarrow>
      setCommittedSnapshot wt name ts m =
        (Inl (InvariantFailure ''!_committedSnapshot || *_committedSnapshot <= name''), m))"
proof (intro conjI impI)
  assume "DropAllSnapshots \<notin> set cs"
  then show "sorted (map fst (accepted (fst (run wt cs m))))"
    using run_accepted_sorted [of cs wt m] by simp
next
  assume "fst (setCommittedSnapshot wt name ts m) = Inr ()"
  then have "case committedSnapshot m of None \<Rightarrow> True | Some cur \<Rightarrow> cur \<le> name"
    by (rule setCommittedSnapshot_returns(1))
  then show "committedSnapshot m = None \<or> (\<exists>cur. committedSnapshot m = Some cur \<and> cur \<le> name)"
    by (cases "committedSnapshot m") simp_all
next
  assume "committedSnapshot m = Some cur \<and> name < cur"
  then show "setCommittedSnapshot wt name ts m =
      (Inl (InvariantFailure ''!_committedSnapshot || *_committedSnapshot <= name''), m)"
    by (simp add: setCommittedSnapshot_regress)
qed

theorem C1_committed_snapshot_monotone_witness:
  "DropAllSnapshots \<notin> set [SetCommittedSnapshot 10 10, CleanupUnneededSnapshots,
      SetCommittedSnapshot 10 11, SetCommittedSnapshot 12 12, SetCommittedSnapshot 5 5,
      SetCommittedSnapshot 20 20] \<and>
   accepted (fst (run engine_ok [SetCommittedSnapshot 10 10, CleanupUnneededSnapshots,
      SetCommittedSnapshot 10 11, SetCommittedSnapshot 12 12, SetCommittedSnapshot 5 5,
      SetCommittedSnapshot 20 20] (constructed (WT_CONNECTION 0) (WT_SESSION 1)))) =
     [(10, 10), (10, 11), (12, 12)] \<and>
   sorted (map fst (accepted (fst (run engine_ok [SetCommittedSnapshot 10 10,
      CleanupUnneededSnapshots, SetCommittedSnapshot 10 11, SetCommittedSnapshot 12 12,
      SetCommittedSnapshot 5 5, SetCommittedSnapshot 20 20]
      (constructed (WT_CONNECTION 0) (WT_SESSION 1)))))) \<and>
   fst (setCommittedSnapshot engine_ok 12 12
      ((constructed (WT_CONNECTION 0) (WT_SESSION 1))\<lparr>committedSnapshot := Some 10\<rparr>)) = Inr () \<and>
   setCommittedSnapshot engine_ok 5 5
      ((constructed (WT_CONNECTION 0) (WT_SESSION 1))\<lparr>committedSnapshot := Some 10\<rparr>) =
     (Inl (InvariantFailure ''!_committedSnapshot || *_committedSnapshot <= name''),
      (constructed (WT_CONNECTION 0) (WT_SESSION 1))\<lparr>committedSnapshot := Some 10\<rparr>)"
  using C1_committed_snapshot_monotone [where cs = "[SetCommittedSnapshot 10 10,
      CleanupUnneededSnapshots, SetCommittedSnapshot 10 11, SetCommittedSnapshot 12 12,
      SetCommittedSnapshot 5 5, SetCommittedSnapshot 20 20]" and wt = engine_ok
      and m = "constructed (WT_CONNECTION 0) (WT_SESSION 1)" and name = 10 and ts = 10
      and cur = 0]
    C1_committed_snapshot_monotone [where cs = "[]" and wt = engine_ok
      and m = "(constructed (WT_CONNECTION 0) (WT_SESSION 1))\<lparr>committedSnapshot := Some 10\<rparr>"
      and name = 12 and ts = 12 and cur = 10]
    C1_committed_snapshot_monotone [where cs = "[]" and wt = engine_ok
      and m = "(constructed (WT_CONNECTION 0) (WT_SESSION 1))\<lparr>committedSnapshot := Some 10\<rparr>"
      and name = 5 and ts = 5 and cur = 10]
  by (simp add: eval_simps)

text \<open>
  C2: the only call \<^verbatim>\<open>beginTransactionOnOplog\<close> makes on the engine is one
  \<^verbatim>\<open>begin_transaction\<close> whose configuration is \<^verbatim>\<open>read_timestamp=\<close> followed by the
  rendering of the maximum of the timestamp read from the oplog manager and the oldest kept
  timestamp; the rendering denotes that maximum.
\<close>

theorem C2_oplog_read_timestamp:
  "engineCalls (snd (beginTransactionOnOplog wt oplogManager sess m)) =
     engineCalls m @
       (case (oplogManager, sess) of
          (Some om, Some s) \<Rightarrow>
            [session_begin_transaction s (''read_timestamp='' @
               llx (unat (max (getOplogReadTimestamp om) (oldestKeptTimestamp m))))]
        | _ \<Rightarrow> []) \<and>
   denotes 16 (llx (unat (v :: 64 word))) = unat v"
proof
  show "engineCalls (snd (beginTransactionOnOplog wt oplogManager sess m)) =
     engineCalls m @
       (case (oplogManager, sess) of
          (Some om, Some s) \<Rightarrow>
            [session_begin_transaction s (''read_timestamp='' @
               llx (unat (max (getOplogReadTimestamp om) (oldestKeptTimestamp m))))]
        | _ \<Rightarrow> [])"
    by (cases oplogManager; cases sess)
       (simp_all add: beginTransactionOnOplog_null beginTransactionOnOplog_call Let_def)
  show "denotes 16 (llx (unat v)) = unat v"
    by (rule denotes_llx)
qed

theorem C2_oplog_read_timestamp_witness:
  "engineCalls (snd (beginTransactionOnOplog engine_ok (Some \<lparr>oplogReadTimestamp = 50\<rparr>)
      (Some (WT_SESSION 2))
      ((constructed (WT_CONNECTION 0) (WT_SESSION 1))\<lparr>oldestKeptTimestamp := 100\<rparr>))) =
     [session_begin_transaction (WT_SESSION 2) ''read_timestamp=64''] \<and>
   engineCalls (snd (beginTransactionOnOplog engine_ok (Some \<lparr>oplogReadTimestamp = 100\<rparr>)
      (Some (WT_SESSION 2))
      ((constructed (WT_CONNECTION 0) (WT_SESSION 1))\<lparr>oldestKeptTimestamp := 50\<rparr>))) =
     [session_begin_transaction (WT_SESSION 2) ''read_timestamp=64''] \<and>
   denotes 16 ''64'' = 100"
  using C2_oplog_read_timestamp [where wt = engine_ok
      and oplogManager = "Some \<lparr>oplogReadTimestamp = 50\<rparr>" and sess = "Some (WT_SESSION 2)"
      and m = "(constructed (WT_CONNECTION 0) (WT_SESSION 1))\<lparr>oldestKeptTimestamp := 100\<rparr>"
      and v = 100]
    C2_oplog_read_timestamp [where wt = engine_ok
      and oplogManager = "Some \<lparr>oplogReadTimestamp = 100\<rparr>" and sess = "Some (WT_SESSION 2)"
      and m = "(constructed (WT_CONNECTION 0) (WT_SESSION 1))\<lparr>oldestKeptTimestamp := 50\<rparr>"
      and v = 100]
  by (simp add: getOplogReadTimestamp_def constructed_def llx.simps digitChar_def)

text \<open>
  C3: when \<^verbatim>\<open>setCommittedSnapshot\<close> returns, the committed snapshot is the name given, the
  oldest kept timestamp is the timestamp given, and the one call made on the engine is
  \<^verbatim>\<open>set_timestamp\<close> with \<^verbatim>\<open>oldest_timestamp=\<close> and that timestamp; after any sequence of
  calls the oldest kept timestamp is the timestamp of the last accepted
  \<^verbatim>\<open>setCommittedSnapshot\<close> call (the starting value if there is none); no other member
  function, and no \<^verbatim>\<open>setCommittedSnapshot\<close> call that fails, changes it.
\<close>

theorem C3_oldest_kept_timestamp:
  "(fst (setCommittedSnapshot wt name ts m) = Inr () \<longrightarrow>
      committedSnapshot (snd (setCommittedSnapshot wt name ts m)) = Some name \<and>
      oldestKeptTimestamp (snd (setCommittedSnapshot wt name ts m)) = ts \<and>
      (\<exists>c. conn m = Some c \<and>
         engineCalls (snd (setCommittedSnapshot wt name ts m)) =
           engineCalls m @ [conn_set_timestamp c (''oldest_timestamp='' @ llx (unat ts))])) \<and>
   oldestKeptTimestamp (snd (run wt cs m)) =
     last (oldestKeptTimestamp m # map snd (accepted (fst (run wt cs m)))) \<and>
   oldestKeptTimestamp (snd (perform wt c m)) =
     (case c of
        SetCommittedSnapshot name' ts' \<Rightarrow>
          (case fst (perform wt c m) of Inl e \<Rightarrow> oldestKeptTimestamp m | Inr v \<Rightarrow> ts')
      | _ \<Rightarrow> oldestKeptTimestamp m)"
proof (intro conjI impI)
  assume r: "fst (setCommittedSnapshot wt name ts m) = Inr ()"
  obtain c where c: "conn m = Some c"
    "snd (setCommittedSnapshot wt name ts m) =
       m\<lparr>committedSnapshot := Some name,
         engineCalls := engineCalls m @
           [conn_set_timestamp c (''oldest_timestamp='' @ llx (unat ts))],
         oldestKeptTimestamp := ts\<rparr>"
    using setCommittedSnapshot_returns(2) [OF r] by blast
  show "committedSnapshot (snd (setCommittedSnapshot wt name ts m)) = Some name"
    by (simp add: c(2))
  show "oldestKeptTimestamp (snd (setCommittedSnapshot wt name ts m)) = ts"
    by (simp add: c(2))
  show "\<exists>c. conn m = Some c \<and>
         engineCalls (snd (setCommittedSnapshot wt name ts m)) =
           engineCalls m @ [conn_set_timestamp c (''oldest_timestamp='' @ llx (unat ts))]"
    using c by simp
next
  show "oldestKeptTimestamp (snd (run wt cs m)) =
     last (oldestKeptTimestamp m # map snd (accepted (fst (run wt cs m))))"
    by (rule run_oldestKeptTimestamp)
next
  show "oldestKeptTimestamp (snd (perform wt c m)) =
     (case c of
        SetCommittedSnapshot name' ts' \<Rightarrow>
          (case fst (perform wt c m) of Inl e \<Rightarrow> oldestKeptTimestamp m | Inr v \<Rightarrow> ts')
      | _ \<Rightarrow> oldestKeptTimestamp m)"
    by (rule perform_oldestKeptTimestamp)
qed

theorem C3_oldest_kept_timestamp_witness:
  "fst (setCommittedSnapshot engine_ok 7 9 (constructed (WT_CONNECTION 0) (WT_SESSION 1))) = Inr () \<and>
   snd (setCommittedSnapshot engine_ok 7 9 (constructed (WT_CONNECTION 0) (WT_SESSION 1))) =
     \<lparr>committedSnapshot = Some 7, oldestKeptTimestamp = 9, session = Some (WT_SESSION 1),
      conn = Some (WT_CONNECTION 0),
      engineCalls = [conn_set_timestamp (WT_CONNECTION 0) ''oldest_timestamp=9'']\<rparr> \<and>
   oldestKeptTimestamp (snd (run engine_ok
      [SetCommittedSnapshot 7 9, DropAllSnapshots, SetCommittedSnapshot 3 4, Shutdown]
      (constructed (WT_CONNECTION 0) (WT_SESSION 1)))) = 4"
  using C3_oldest_kept_timestamp [where wt = engine_ok and name = 7 and ts = 9
      and m = "constructed (WT_CONNECTION 0) (WT_SESSION 1)"
      and cs = "[SetCommittedSnapshot 7 9, DropAllSnapshots, SetCommittedSnapshot 3 4, Shutdown]"
      and c = Shutdown]
  by (simp add: eval_simps)

text \<open>
  C4: \<^verbatim>\<open>beginTransactionOnCommittedSnapshot\<close> throws
  \<^verbatim>\<open>ReadConcernMajorityNotAvailableYet\<close> exactly when there is no committed snapshot, and
  then it neither aborts the process nor touches the manager or the engine; when there is a
  committed snapshot it calls \<^verbatim>\<open>begin_transaction\<close> on the given session with
  \<^verbatim>\<open>snapshot=\<close> and that snapshot's name, and returns that name when the engine accepts.
\<close>

theorem C4_begin_on_committed_snapshot:
  "((\<exists>msg. fst (beginTransactionOnCommittedSnapshot wt sess m) =
        Inl (UserAssertion ReadConcernMajorityNotAvailableYet msg)) \<longleftrightarrow>
      committedSnapshot m = None) \<and>
   (committedSnapshot m = None \<longrightarrow>
      snd (beginTransactionOnCommittedSnapshot wt sess m) = m \<and>
      \<not> aborts (fst (beginTransactionOnCommittedSnapshot wt sess m))) \<and>
   (committedSnapshot m = Some cur \<longrightarrow>
      beginTransactionOnCommittedSnapshot wt (Some s) m =
        (if wt (engineCalls m) (session_begin_transaction s (''snapshot='' @ dec (unat cur))) = 0
         then Inr cur
         else Inl (InvariantWTOKFailure
           (wt (engineCalls m) (session_begin_transaction s (''snapshot='' @ dec (unat cur))))),
         m\<lparr>engineCalls := engineCalls m @
           [session_begin_transaction s (''snapshot='' @ dec (unat cur))]\<rparr>))"
proof (intro conjI impI)
  show "(\<exists>msg. fst (beginTransactionOnCommittedSnapshot wt sess m) =
        Inl (UserAssertion ReadConcernMajorityNotAvailableYet msg)) \<longleftrightarrow>
      committedSnapshot m = None"
    by (cases "committedSnapshot m"; cases sess)
       (simp_all add: beginTransactionOnCommittedSnapshot_none
          beginTransactionOnCommittedSnapshot_null_session
          beginTransactionOnCommittedSnapshot_call Let_def)
next
  assume "committedSnapshot m = None"
  then show "snd (beginTransactionOnCommittedSnapshot wt sess m) = m"
    by (simp add: beginTransactionOnCommittedSnapshot_none)
next
  assume "committedSnapshot m = None"
  then show "\<not> aborts (fst (beginTransactionOnCommittedSnapshot wt sess m))"
    by (simp add: beginTransactionOnCommittedSnapshot_none aborts_def)
next
  assume "committedSnapshot m = Some cur"
  then show "beginTransactionOnCommittedSnapshot wt (Some s) m =
        (if wt (engineCalls m) (session_begin_transaction s (''snapshot='' @ dec (unat cur))) = 0
         then Inr cur
         else Inl (InvariantWTOKFailure
           (wt (engineCalls m) (session_begin_transaction s (''snapshot='' @ dec (unat cur))))),
         m\<lparr>engineCalls := engineCalls m @
           [session_begin_transaction s (''snapshot='' @ dec (unat cur))]\<rparr>)"
    by (simp add: beginTransactionOnCommittedSnapshot_call Let_def)
qed

theorem C4_begin_on_committed_snapshot_witness:
  "committedSnapshot (constructed (WT_CONNECTION 0) (WT_SESSION 1)) = None \<and>
   beginTransactionOnCommittedSnapshot engine_ok (Some (WT_SESSION 2))
      (constructed (WT_CONNECTION 0) (WT_SESSION 1)) =
     (Inl (UserAssertion ReadConcernMajorityNotAvailableYet
             ''Committed view disappeared while running operation''),
      constructed (WT_CONNECTION 0) (WT_SESSION 1)) \<and>
   committedSnapshot ((constructed (WT_CONNECTION 0) (WT_SESSION 1))
      \<lparr>committedSnapshot := Some 42\<rparr>) = Some 42 \<and>
   beginTransactionOnCommittedSnapshot engine_ok (Some (WT_SESSION 2))
      ((constructed (WT_CONNECTION 0) (WT_SESSION 1))\<lparr>committedSnapshot := Some 42\<rparr>) =
     (Inr 42, (constructed (WT_CONNECTION 0) (WT_SESSION 1))
        \<lparr>committedSnapshot := Some 42,
          engineCalls := [session_begin_transaction (WT_SESSION 2) ''snapshot=42'']\<rparr>)"
  using C4_begin_on_committed_snapshot [where wt = engine_ok and sess = "Some (WT_SESSION 2)"
      and m = "constructed (WT_CONNECTION 0) (WT_SESSION 1)" and s = "WT_SESSION 2" and cur = 0]
    C4_begin_on_committed_snapshot [where wt = engine_ok and sess = "Some (WT_SESSION 2)"
      and m = "(constructed (WT_CONNECTION 0) (WT_SESSION 1))\<lparr>committedSnapshot := Some 42\<rparr>"
      and s = "WT_SESSION 2" and cur = 42]
  by (simp add: eval_simps)

text \<open>
  C5, as the specification states it, fails: the timestamp 255 is passed to the engine as
  \<^verbatim>\<open>oldest_timestamp=ff\<close> and as \<^verbatim>\<open>read_timestamp=ff\<close>, two digits where the
  timestamp 1 takes one and the fixed-width rendering takes sixteen; the snapshot named 255
  is passed as \<^verbatim>\<open>snapshot=255\<close>, which is decimal, where hexadecimal is \<^verbatim>\<open>ff\<close>.
\<close>

theorem C5_config_rendering_counterexample:
  "engineCalls (snd (setCommittedSnapshot engine_ok 255 255
      (constructed (WT_CONNECTION 0) (WT_SESSION 1)))) =
     [conn_set_timestamp (WT_CONNECTION 0) ''oldest_timestamp=ff''] \<and>
   engineCalls (snd (setCommittedSnapshot engine_ok 1 1
      (constructed (WT_CONNECTION 0) (WT_SESSION 1)))) =
     [conn_set_timestamp (WT_CONNECTION 0) ''oldest_timestamp=1''] \<and>
   engineCalls (snd (beginTransactionOnOplog engine_ok (Some \<lparr>oplogReadTimestamp = 255\<rparr>)
      (Some (WT_SESSION 2)) (constructed (WT_CONNECTION 0) (WT_SESSION 1)))) =
     [session_begin_transaction (WT_SESSION 2) ''read_timestamp=ff''] \<and>
   spec_fixedWidthHex 255 = ''00000000000000ff'' \<and>
   ''ff'' \<noteq> spec_fixedWidthHex 255 \<and>
   engineCalls (snd (beginTransactionOnCommittedSnapshot engine_ok (Some (WT_SESSION 2))
      ((constructed (WT_CONNECTION 0) (WT_SESSION 1))\<lparr>committedSnapshot := Some 255\<rparr>))) =
     [session_begin_transaction (WT_SESSION 2) ''snapshot=255''] \<and>
   llx 255 = ''ff'' \<and>
   denotes 16 ''255'' \<noteq> 255"
proof -
  have a: "engineCalls (snd (setCommittedSnapshot engine_ok 255 255
      (constructed (WT_CONNECTION 0) (WT_SESSION 1)))) =
     [conn_set_timestamp (WT_CONNECTION 0) ''oldest_timestamp=ff'']"
    by (simp add: eval_simps)
  have b: "engineCalls (snd (setCommittedSnapshot engine_ok 1 1
      (constructed (WT_CONNECTION 0) (WT_SESSION 1)))) =
     [conn_set_timestamp (WT_CONNECTION 0) ''oldest_timestamp=1'']"
    by (simp add: eval_simps)
  have c: "engineCalls (snd (beginTransactionOnOplog engine_ok
      (Some \<lparr>oplogReadTimestamp = 255\<rparr>)
      (Some (WT_SESSION 2)) (constructed (WT_CONNECTION 0) (WT_SESSION 1)))) =
     [session_begin_transaction (WT_SESSION 2) ''read_timestamp=ff'']"
    by (simp add: beginTransactionOnOplog_call Let_def getOplogReadTimestamp_def
          constructed_def engine_ok_def llx.simps digitChar_def)
  have d: "spec_fixedWidthHex 255 = ''00000000000000ff''"
    by (simp add: spec_fixedWidthHex_def digitChar_def upt_conv_Cons)
  have e: "''ff'' \<noteq> spec_fixedWidthHex 255"
    unfolding d by simp
  have f: "engineCalls (snd (beginTransactionOnCommittedSnapshot engine_ok (Some (WT_SESSION 2))
      ((constructed (WT_CONNECTION 0) (WT_SESSION 1))\<lparr>committedSnapshot := Some 255\<rparr>))) =
     [session_begin_transaction (WT_SESSION 2) ''snapshot=255'']"
    by (simp add: eval_simps)
  have g: "llx 255 = ''ff''"
    by (simp add: llx.simps digitChar_def)
  have h: "denotes 16 ''255'' \<noteq> 255"
    by (simp add: denotes_def digitVal_def)
  show ?thesis by (intro conjI) (rule a b c d e f g h)+
qed

text \<open>
  C5, amended: a timestamp is passed to the engine in lower-case hexadecimal of variable
  width, one to sixteen digits with no leading zero, after \<^verbatim>\<open>oldest_timestamp=\<close> and
  \<^verbatim>\<open>read_timestamp=\<close>; the snapshot name passed by
  \<^verbatim>\<open>beginTransactionOnCommittedSnapshot\<close> is in decimal after \<^verbatim>\<open>snapshot=\<close>. Both
  renderings denote the value rendered.
\<close>

theorem C5_config_rendering:
  "(admits (committedSnapshot m) name \<and> conn m = Some c \<longrightarrow>
      engineCalls (snd (setCommittedSnapshot wt name ts m)) =
        engineCalls m @ [conn_set_timestamp c (''oldest_timestamp='' @ llx (unat ts))]) \<and>
   engineCalls (snd (beginTransactionOnOplog wt (Some om) (Some s) m)) =
     engineCalls m @ [session_begin_transaction s (''read_timestamp='' @
        llx (unat (max (getOplogReadTimestamp om) (oldestKeptTimestamp m))))] \<and>
   (committedSnapshot m = Some cur \<longrightarrow>
      engineCalls (snd (beginTransactionOnCommittedSnapshot wt (Some s) m)) =
        engineCalls m @ [session_begin_transaction s (''snapshot='' @ dec (unat cur))]) \<and>
   set (llx (unat (v :: 64 word))) \<subseteq> set ''0123456789abcdef'' \<and>
   1 \<le> length (llx (unat v)) \<and> length (llx (unat v)) \<le> 16 \<and>
   (v \<noteq> 0 \<longrightarrow> hd (llx (unat v)) \<noteq> CHR ''0'') \<and>
   denotes 16 (llx (unat v)) = unat v \<and>
   set (dec (unat v)) \<subseteq> set ''0123456789'' \<and>
   denotes 10 (dec (unat v)) = unat v"
proof (intro conjI impI)
  assume a: "admits (committedSnapshot m) name \<and> conn m = Some c"
  then have ok: "case committedSnapshot m of None \<Rightarrow> True | Some cur \<Rightarrow> cur \<le> name"
    by (simp add: admits_def)
  from a have c: "conn m = Some c" by simp
  show "engineCalls (snd (setCommittedSnapshot wt name ts m)) =
        engineCalls m @ [conn_set_timestamp c (''oldest_timestamp='' @ llx (unat ts))]"
    by (simp add: setCommittedSnapshot_call [OF ok c] Let_def)
next
  show "engineCalls (snd (beginTransactionOnOplog wt (Some om) (Some s) m)) =
     engineCalls m @ [session_begin_transaction s (''read_timestamp='' @
        llx (unat (max (getOplogReadTimestamp om) (oldestKeptTimestamp m))))]"
    by (simp add: beginTransactionOnOplog_call Let_def)
next
  assume "committedSnapshot m = Some cur"
  then show "engineCalls (snd (beginTransactionOnCommittedSnapshot wt (Some s) m)) =
        engineCalls m @ [session_begin_transaction s (''snapshot='' @ dec (unat cur))]"
    by (simp add: beginTransactionOnCommittedSnapshot_call Let_def)
next
  show "set (llx (unat v)) \<subseteq> set ''0123456789abcdef''" by (rule llx_digits)
next
  show "1 \<le> length (llx (unat v))" using llx_nonempty [of "unat v"]
    by (cases "llx (unat v)") simp_all
next
  show "length (llx (unat v)) \<le> 16" by (rule llx_length_word)
next
  assume "v \<noteq> 0"
  then have "0 < unat v" by (simp add: unat_gt_0)
  then show "hd (llx (unat v)) \<noteq> CHR ''0''" by (rule llx_no_leading_zero)
next
  show "denotes 16 (llx (unat v)) = unat v" by (rule denotes_llx)
next
  show "set (dec (unat v)) \<subseteq> set ''0123456789''" by (rule dec_digits)
next
  show "denotes 10 (dec (unat v)) = unat v" by (rule denotes_dec)
qed

theorem C5_config_rendering_witness:
  "admits (committedSnapshot (constructed (WT_CONNECTION 0) (WT_SESSION 1))) 48879 \<and>
   conn (constructed (WT_CONNECTION 0) (WT_SESSION 1)) = Some (WT_CONNECTION 0) \<and>
   engineCalls (snd (setCommittedSnapshot engine_ok 48879 48879
      (constructed (WT_CONNECTION 0) (WT_SESSION 1)))) =
     [conn_set_timestamp (WT_CONNECTION 0) ''oldest_timestamp=beef''] \<and>
   committedSnapshot ((constructed (WT_CONNECTION 0) (WT_SESSION 1))
      \<lparr>committedSnapshot := Some 48879\<rparr>) = Some 48879 \<and>
   engineCalls (snd (beginTransactionOnCommittedSnapshot engine_ok (Some (WT_SESSION 2))
      ((constructed (WT_CONNECTION 0) (WT_SESSION 1))\<lparr>committedSnapshot := Some 48879\<rparr>))) =
     [session_begin_transaction (WT_SESSION 2) ''snapshot=48879''] \<and>
   (48879 :: 64 word) \<noteq> 0 \<and> hd (llx (unat (48879 :: 64 word))) \<noteq> CHR ''0''"
  using C5_config_rendering [where m = "constructed (WT_CONNECTION 0) (WT_SESSION 1)"
      and name = 48879 and ts = 48879 and c = "WT_CONNECTION 0" and wt = engine_ok
      and cur = 0 and v = 48879 and s = "WT_SESSION 2" and om = "\<lparr>oplogReadTimestamp = 0\<rparr>"]
    C5_config_rendering [where m = "(constructed (WT_CONNECTION 0) (WT_SESSION 1))
        \<lparr>committedSnapshot := Some 48879\<rparr>"
      and name = 48879 and ts = 48879 and c = "WT_CONNECTION 0" and wt = engine_ok
      and cur = 48879 and v = 48879 and s = "WT_SESSION 2" and om = "\<lparr>oplogReadTimestamp = 0\<rparr>"]
  by (simp add: admits_def constructed_def getOplogReadTimestamp_def llx.simps dec.simps
        digitChar_def)

text \<open>
  C6: without a committed snapshot \<^verbatim>\<open>cleanupUnneededSnapshots\<close> returns at once, the
  manager and the record of engine calls untouched; with a committed snapshot and its
  session open it makes one call on the engine, \<^verbatim>\<open>snapshot\<close> with
  \<^verbatim>\<open>drop=(before=\<close>the committed name\<^verbatim>\<open>)\<close>, and changes nothing else.
\<close>

theorem C6_cleanup_unneeded_snapshots:
  "(committedSnapshot m = None \<longrightarrow> cleanupUnneededSnapshots wt m = (Inr (), m)) \<and>
   (committedSnapshot m = Some cur \<and> session m = Some s \<longrightarrow>
      cleanupUnneededSnapshots wt m =
        (if wt (engineCalls m) (session_snapshot s (''drop=(before='' @ dec (unat cur) @ '')'')) = 0
         then Inr ()
         else Inl (InvariantWTOKFailure
           (wt (engineCalls m) (session_snapshot s (''drop=(before='' @ dec (unat cur) @ '')'')))),
         m\<lparr>engineCalls := engineCalls m @
           [session_snapshot s (''drop=(before='' @ dec (unat cur) @ '')'')]\<rparr>) \<and>
      denotes 10 (dec (unat cur)) = unat cur)"
proof (intro conjI impI)
  assume "committedSnapshot m = None"
  then show "cleanupUnneededSnapshots wt m = (Inr (), m)"
    by (rule cleanupUnneededSnapshots_none)
next
  assume a: "committedSnapshot m = Some cur \<and> session m = Some s"
  then have c: "committedSnapshot m = Some cur" and s: "session m = Some s" by simp_all
  show "cleanupUnneededSnapshots wt m =
        (if wt (engineCalls m) (session_snapshot s (''drop=(before='' @ dec (unat cur) @ '')'')) = 0
         then Inr ()
         else Inl (InvariantWTOKFailure
           (wt (engineCalls m) (session_snapshot s (''drop=(before='' @ dec (unat cur) @ '')'')))),
         m\<lparr>engineCalls := engineCalls m @
           [session_snapshot s (''drop=(before='' @ dec (unat cur) @ '')'')]\<rparr>)"
    by (simp add: cleanupUnneededSnapshots_call [OF c s] Let_def)
next
  show "denotes 10 (dec (unat cur)) = unat cur" by (rule denotes_dec)
qed

theorem C6_cleanup_unneeded_snapshots_witness:
  "committedSnapshot (constructed (WT_CONNECTION 0) (WT_SESSION 1)) = None \<and>
   cleanupUnneededSnapshots engine_ok (constructed (WT_CONNECTION 0) (WT_SESSION 1)) =
     (Inr (), constructed (WT_CONNECTION 0) (WT_SESSION 1)) \<and>
   committedSnapshot ((constructed (WT_CONNECTION 0) (WT_SESSION 1))
      \<lparr>committedSnapshot := Some 10\<rparr>) = Some 10 \<and>
   session ((constructed (WT_CONNECTION 0) (WT_SESSION 1))
      \<lparr>committedSnapshot := Some 10\<rparr>) = Some (WT_SESSION 1) \<and>
   cleanupUnneededSnapshots engine_ok
      ((constructed (WT_CONNECTION 0) (WT_SESSION 1))\<lparr>committedSnapshot := Some 10\<rparr>) =
     (Inr (), (constructed (WT_CONNECTION 0) (WT_SESSION 1))
        \<lparr>committedSnapshot := Some 10,
          engineCalls := [session_snapshot (WT_SESSION 1) ''drop=(before=10)'']\<rparr>)"
  using C6_cleanup_unneeded_snapshots [where wt = engine_ok
      and m = "constructed (WT_CONNECTION 0) (WT_SESSION 1)" and cur = 0 and s = "WT_SESSION 1"]
    C6_cleanup_unneeded_snapshots [where wt = engine_ok
      and m = "(constructed (WT_CONNECTION 0) (WT_SESSION 1))\<lparr>committedSnapshot := Some 10\<rparr>"
      and cur = 10 and s = "WT_SESSION 1"]
  by (simp add: constructed_def engine_ok_def dec.simps digitChar_def)

text \<open>
  C7: after \<^verbatim>\<open>dropAllSnapshots\<close>, \<^verbatim>\<open>getMinSnapshotForNextCommittedRead\<close> returns nothing;
  with the session open the one call made on the engine is \<^verbatim>\<open>snapshot\<close> with
  \<^verbatim>\<open>drop=(all)\<close>, whatever the committed snapshot was; a \<^verbatim>\<open>setCommittedSnapshot\<close> that
  follows never fails the monotonicity invariant, whatever its name, and returns when the
  engine accepts the timestamp.
\<close>

theorem C7_drop_all_snapshots:
  "getMinSnapshotForNextCommittedRead (snd (dropAllSnapshots wt m)) = None \<and>
   (session m = Some s \<longrightarrow>
      engineCalls (snd (dropAllSnapshots wt m)) =
        engineCalls m @ [session_snapshot s ''drop=(all)'']) \<and>
   fst (setCommittedSnapshot wt' name ts (snd (dropAllSnapshots wt m))) \<noteq>
     Inl (InvariantFailure ''!_committedSnapshot || *_committedSnapshot <= name'') \<and>
   (conn m = Some c \<and>
    wt' (engineCalls (snd (dropAllSnapshots wt m)))
      (conn_set_timestamp c (''oldest_timestamp='' @ llx (unat ts))) = 0 \<longrightarrow>
      fst (setCommittedSnapshot wt' name ts (snd (dropAllSnapshots wt m))) = Inr () \<and>
      committedSnapshot (snd (setCommittedSnapshot wt' name ts (snd (dropAllSnapshots wt m)))) =
        Some name)"
proof (intro conjI impI)
  show "getMinSnapshotForNextCommittedRead (snd (dropAllSnapshots wt m)) = None"
    by (simp add: getMinSnapshotForNextCommittedRead_def dropAllSnapshots_frame)
next
  assume "session m = Some s"
  then show "engineCalls (snd (dropAllSnapshots wt m)) =
        engineCalls m @ [session_snapshot s ''drop=(all)'']"
    by (simp add: dropAllSnapshots_call Let_def)
next
  have ok: "case committedSnapshot (snd (dropAllSnapshots wt m)) of
      None \<Rightarrow> True | Some cur \<Rightarrow> cur \<le> name"
    by (simp add: dropAllSnapshots_frame)
  show "fst (setCommittedSnapshot wt' name ts (snd (dropAllSnapshots wt m))) \<noteq>
     Inl (InvariantFailure ''!_committedSnapshot || *_committedSnapshot <= name'')"
  proof (cases "conn (snd (dropAllSnapshots wt m))")
    case None
    then show ?thesis by (simp add: setCommittedSnapshot_null_conn [OF ok])
  next
    case (Some k)
    then show ?thesis by (simp add: setCommittedSnapshot_call [OF ok Some] Let_def)
  qed
  assume a: "conn m = Some c \<and>
    wt' (engineCalls (snd (dropAllSnapshots wt m)))
      (conn_set_timestamp c (''oldest_timestamp='' @ llx (unat ts))) = 0"
  then have c: "conn (snd (dropAllSnapshots wt m)) = Some c"
    by (simp add: dropAllSnapshots_frame)
  show "fst (setCommittedSnapshot wt' name ts (snd (dropAllSnapshots wt m))) = Inr ()"
    using a by (simp add: setCommittedSnapshot_call [OF ok c] Let_def)
  show "committedSnapshot (snd (setCommittedSnapshot wt' name ts (snd (dropAllSnapshots wt m)))) =
        Some name"
    using a by (simp add: setCommittedSnapshot_call [OF ok c] Let_def)
qed

theorem C7_drop_all_snapshots_witness:
  "session ((constructed (WT_CONNECTION 0) (WT_SESSION 1))
      \<lparr>committedSnapshot := Some 10, oldestKeptTimestamp := 10\<rparr>) = Some (WT_SESSION 1) \<and>
   conn ((constructed (WT_CONNECTION 0) (WT_SESSION 1))
      \<lparr>committedSnapshot := Some 10, oldestKeptTimestamp := 10\<rparr>) = Some (WT_CONNECTION 0) \<and>
   dropAllSnapshots engine_ok ((constructed (WT_CONNECTION 0) (WT_SESSION 1))
      \<lparr>committedSnapshot := Some 10, oldestKeptTimestamp := 10\<rparr>) =
     (Inr (), (constructed (WT_CONNECTION 0) (WT_SESSION 1))
        \<lparr>committedSnapshot := None, oldestKeptTimestamp := 10,
          engineCalls := [session_snapshot (WT_SESSION 1) ''drop=(all)'']\<rparr>) \<and>
   getMinSnapshotForNextCommittedRead (snd (dropAllSnapshots engine_ok
      ((constructed (WT_CONNECTION 0) (WT_SESSION 1))
         \<lparr>committedSnapshot := Some 10, oldestKeptTimestamp := 10\<rparr>))) = None \<and>
   setCommittedSnapshot engine_ok 5 5 (snd (dropAllSnapshots engine_ok
      ((constructed (WT_CONNECTION 0) (WT_SESSION 1))
         \<lparr>committedSnapshot := Some 10, oldestKeptTimestamp := 10\<rparr>))) =
     (Inr (), (constructed (WT_CONNECTION 0) (WT_SESSION 1))
        \<lparr>committedSnapshot := Some 5, oldestKeptTimestamp := 5,
          engineCalls := [session_snapshot (WT_SESSION 1) ''drop=(all)'',
            conn_set_timestamp (WT_CONNECTION 0) ''oldest_timestamp=5'']\<rparr>)"
  using C7_drop_all_snapshots [where wt = engine_ok and wt' = engine_ok
      and m = "(constructed (WT_CONNECTION 0) (WT_SESSION 1))
        \<lparr>committedSnapshot := Some 10, oldestKeptTimestamp := 10\<rparr>"
      and s = "WT_SESSION 1" and c = "WT_CONNECTION 0" and name = 5 and ts = 5]
  by (simp add: eval_simps)

text \<open>
  C8: a first \<^verbatim>\<open>shutdown\<close> with the session open makes one call on the engine, the close
  of that session, and when the engine accepts it clears the handle; once a \<^verbatim>\<open>shutdown\<close>
  has returned, every later \<^verbatim>\<open>shutdown\<close> returns without an error, without a call on the
  engine and without a change to the manager, whatever the engine would answer.
\<close>

theorem C8_shutdown_idempotent:
  "(session m = Some s \<longrightarrow>
      shutdown wt m =
        (if wt (engineCalls m) (session_close s None) = 0
         then (Inr (), m\<lparr>engineCalls := engineCalls m @ [session_close s None],
                          session := None\<rparr>)
         else (Inl (InvariantWTOKFailure (wt (engineCalls m) (session_close s None))),
               m\<lparr>engineCalls := engineCalls m @ [session_close s None]\<rparr>))) \<and>
   (fst (shutdown wt m) = Inr () \<longrightarrow>
      session (snd (shutdown wt m)) = None \<and>
      shutdown wt' (snd (shutdown wt m)) = (Inr (), snd (shutdown wt m)) \<and>
      run wt' (replicate n Shutdown) (snd (shutdown wt m)) =
        (replicate n (Shutdown, Inr Void), snd (shutdown wt m)))"
proof (intro conjI impI)
  assume "session m = Some s"
  then show "shutdown wt m =
        (if wt (engineCalls m) (session_close s None) = 0
         then (Inr (), m\<lparr>engineCalls := engineCalls m @ [session_close s None],
                          session := None\<rparr>)
         else (Inl (InvariantWTOKFailure (wt (engineCalls m) (session_close s None))),
               m\<lparr>engineCalls := engineCalls m @ [session_close s None]\<rparr>))"
    by (simp add: shutdown_call Let_def)
next
  assume "fst (shutdown wt m) = Inr ()"
  then show closed: "session (snd (shutdown wt m)) = None"
    by (rule shutdown_returns)
  then show "shutdown wt' (snd (shutdown wt m)) = (Inr (), snd (shutdown wt m))"
    by (rule shutdown_null_session)
  from closed show "run wt' (replicate n Shutdown) (snd (shutdown wt m)) =
        (replicate n (Shutdown, Inr Void), snd (shutdown wt m))"
    by (rule run_shutdown_closed)
qed

theorem C8_shutdown_idempotent_witness:
  "session (constructed (WT_CONNECTION 0) (WT_SESSION 1)) = Some (WT_SESSION 1) \<and>
   shutdown engine_ok (constructed (WT_CONNECTION 0) (WT_SESSION 1)) =
     (Inr (), (constructed (WT_CONNECTION 0) (WT_SESSION 1))
        \<lparr>session := None, engineCalls := [session_close (WT_SESSION 1) None]\<rparr>) \<and>
   shutdown engine_ok (snd (shutdown engine_ok (constructed (WT_CONNECTION 0) (WT_SESSION 1)))) =
     (Inr (), (constructed (WT_CONNECTION 0) (WT_SESSION 1))
        \<lparr>session := None, engineCalls := [session_close (WT_SESSION 1) None]\<rparr>)"
  using C8_shutdown_idempotent [where wt = engine_ok and wt' = engine_ok
      and m = "constructed (WT_CONNECTION 0) (WT_SESSION 1)" and s = "WT_SESSION 1" and n = 2]
  by (simp add: constructed_def engine_ok_def shutdown_def wt_call_def)

text \<open>
  C9: \<^verbatim>\<open>dropAllSnapshots\<close> leaves the oldest kept timestamp, the session and the connection
  as they were and clears the committed snapshot; a \<^verbatim>\<open>beginTransactionOnOplog\<close> that
  follows passes the engine the maximum of the oplog manager's timestamp and the oldest kept
  timestamp from before the reset.
\<close>

theorem C9_drop_all_keeps_oldest:
  "oldestKeptTimestamp (snd (dropAllSnapshots wt m)) = oldestKeptTimestamp m \<and>
   session (snd (dropAllSnapshots wt m)) = session m \<and>
   conn (snd (dropAllSnapshots wt m)) = conn m \<and>
   committedSnapshot (snd (dropAllSnapshots wt m)) = None \<and>
   engineCalls (snd (beginTransactionOnOplog wt' (Some om) (Some s) (snd (dropAllSnapshots wt m)))) =
     engineCalls (snd (dropAllSnapshots wt m)) @
       [session_begin_transaction s (''read_timestamp='' @
          llx (unat (max (getOplogReadTimestamp om) (oldestKeptTimestamp m))))]"
  by (simp add: dropAllSnapshots_frame beginTransactionOnOplog_call Let_def)

theorem C9_drop_all_keeps_oldest_witness:
  "snd (dropAllSnapshots engine_ok ((constructed (WT_CONNECTION 0) (WT_SESSION 1))
      \<lparr>committedSnapshot := Some 100, oldestKeptTimestamp := 100\<rparr>)) =
     (constructed (WT_CONNECTION 0) (WT_SESSION 1))
       \<lparr>committedSnapshot := None, oldestKeptTimestamp := 100,
         engineCalls := [session_snapshot (WT_SESSION 1) ''drop=(all)'']\<rparr> \<and>
   engineCalls (snd (beginTransactionOnOplog engine_ok (Some \<lparr>oplogReadTimestamp = 50\<rparr>)
      (Some (WT_SESSION 2))
      (snd (dropAllSnapshots engine_ok ((constructed (WT_CONNECTION 0) (WT_SESSION 1))
        \<lparr>committedSnapshot := Some 100, oldestKeptTimestamp := 100\<rparr>))))) =
     [session_snapshot (WT_SESSION 1) ''drop=(all)'',
      session_begin_transaction (WT_SESSION 2) ''read_timestamp=64'']"
  using C9_drop_all_keeps_oldest [where wt = engine_ok and wt' = engine_ok
      and m = "(constructed (WT_CONNECTION 0) (WT_SESSION 1))
        \<lparr>committedSnapshot := Some 100, oldestKeptTimestamp := 100\<rparr>"
      and om = "\<lparr>oplogReadTimestamp = 50\<rparr>" and s = "WT_SESSION 2"]
  by (simp add: dropAllSnapshots_call Let_def constructed_def engine_ok_def
        getOplogReadTimestamp_def llx.simps digitChar_def)

text \<open>
  C10: of the member functions that use the manager's session, only \<^verbatim>\<open>shutdown\<close> tests it
  for null. Once \<^verbatim>\<open>shutdown\<close> has returned, \<^verbatim>\<open>dropAllSnapshots\<close> goes through the null
  session, and so does \<^verbatim>\<open>cleanupUnneededSnapshots\<close> when a committed snapshot is set;
  neither reaches the engine; \<^verbatim>\<open>shutdown\<close> itself returns.
\<close>

theorem C10_null_session_after_shutdown:
  "(fst (shutdown wt m) = Inr () \<longrightarrow>
      session (snd (shutdown wt m)) = None \<and>
      dropAllSnapshots wt' (snd (shutdown wt m)) =
        (Inl NullPointer, (snd (shutdown wt m))\<lparr>committedSnapshot := None\<rparr>) \<and>
      (committedSnapshot m = Some cur \<longrightarrow>
         cleanupUnneededSnapshots wt' (snd (shutdown wt m)) =
           (Inl NullPointer, snd (shutdown wt m))) \<and>
      shutdown wt' (snd (shutdown wt m)) = (Inr (), snd (shutdown wt m))) \<and>
   (session m = None \<longrightarrow>
      dropAllSnapshots wt m = (Inl NullPointer, m\<lparr>committedSnapshot := None\<rparr>) \<and>
      (committedSnapshot m = Some cur \<longrightarrow> cleanupUnneededSnapshots wt m = (Inl NullPointer, m)) \<and>
      shutdown wt m = (Inr (), m))"
proof (intro conjI impI)
  assume "fst (shutdown wt m) = Inr ()"
  then show closed: "session (snd (shutdown wt m)) = None"
    by (rule shutdown_returns)
  then show "dropAllSnapshots wt' (snd (shutdown wt m)) =
        (Inl NullPointer, (snd (shutdown wt m))\<lparr>committedSnapshot := None\<rparr>)"
    by (rule dropAllSnapshots_null_session)
  from closed show "shutdown wt' (snd (shutdown wt m)) = (Inr (), snd (shutdown wt m))"
    by (rule shutdown_null_session)
  assume "committedSnapshot m = Some cur"
  then have "committedSnapshot (snd (shutdown wt m)) = Some cur"
    by (simp add: shutdown_frame)
  then show "cleanupUnneededSnapshots wt' (snd (shutdown wt m)) =
           (Inl NullPointer, snd (shutdown wt m))"
    using closed by (rule cleanupUnneededSnapshots_null_session)
next
  assume closed: "session m = None"
  then show "dropAllSnapshots wt m = (Inl NullPointer, m\<lparr>committedSnapshot := None\<rparr>)"
    by (rule dropAllSnapshots_null_session)
  from closed show "shutdown wt m = (Inr (), m)"
    by (rule shutdown_null_session)
  assume "committedSnapshot m = Some cur"
  then show "cleanupUnneededSnapshots wt m = (Inl NullPointer, m)"
    using closed by (rule cleanupUnneededSnapshots_null_session)
qed

theorem C10_null_session_after_shutdown_witness:
  "fst (shutdown engine_ok ((constructed (WT_CONNECTION 0) (WT_SESSION 1))
      \<lparr>committedSnapshot := Some 10\<rparr>)) = Inr () \<and>
   committedSnapshot ((constructed (WT_CONNECTION 0) (WT_SESSION 1))
      \<lparr>committedSnapshot := Some 10\<rparr>) = Some 10 \<and>
   fst (run engine_ok [Shutdown, CleanupUnneededSnapshots]
      ((constructed (WT_CONNECTION 0) (WT_SESSION 1))\<lparr>committedSnapshot := Some 10\<rparr>)) =
     [(Shutdown, Inr Void), (CleanupUnneededSnapshots, Inl NullPointer)] \<and>
   fst (run engine_ok [Shutdown, DropAllSnapshots]
      ((constructed (WT_CONNECTION 0) (WT_SESSION 1))\<lparr>committedSnapshot := Some 10\<rparr>)) =
     [(Shutdown, Inr Void), (DropAllSnapshots, Inl NullPointer)] \<and>
   fst (run engine_ok [Shutdown, Shutdown]
      ((constructed (WT_CONNECTION 0) (WT_SESSION 1))\<lparr>committedSnapshot := Some 10\<rparr>)) =
     [(Shutdown, Inr Void), (Shutdown, Inr Void)] \<and>
   session ((constructed (WT_CONNECTION 0) (WT_SESSION 1))\<lparr>session := None\<rparr>) = None \<and>
   dropAllSnapshots engine_ok ((constructed (WT_CONNECTION 0) (WT_SESSION 1))
      \<lparr>session := None\<rparr>) =
     (Inl NullPointer, (constructed (WT_CONNECTION 0) (WT_SESSION 1))\<lparr>session := None\<rparr>)"
  using C10_null_session_after_shutdown [where wt = engine_ok and wt' = engine_ok
      and m = "(constructed (WT_CONNECTION 0) (WT_SESSION 1))\<lparr>committedSnapshot := Some 10\<rparr>"
      and cur = 10]
    C10_null_session_after_shutdown [where wt = engine_ok and wt' = engine_ok
      and m = "(constructed (WT_CONNECTION 0) (WT_SESSION 1))\<lparr>session := None\<rparr>"
      and cur = 10]
  by (simp add: eval_simps)

end
